theory Spec2Isabelle
  imports Main "HOL-Library.Sublist"
begin

section \<open>Strings as Python uses them\<close>

text \<open>
  The script works on one Python \<open>str\<close>. A text is a \<^typ>\<open>string\<close> (a list of
  characters). Two operations of \<open>str\<close> are used: the membership test \<open>sub in text\<close>
  and \<open>text.replace(old, new)\<close>, which substitutes every non-overlapping occurrence of
  \<open>old\<close>, scanning from the left. Neither raises on any pair of strings.
\<close>

fun str_in :: "string \<Rightarrow> string \<Rightarrow> bool" where
  "str_in sub [] = (sub = [])"
| "str_in sub (c # cs) = (prefix sub (c # cs) \<or> str_in sub cs)"

function replace :: "string \<Rightarrow> string \<Rightarrow> string \<Rightarrow> string" where
  "replace [] old new = (if old = [] then new else [])"
| "replace (c # cs) old new =
     (if old = [] then new @ c # replace cs old new
      else if prefix old (c # cs) then new @ replace (drop (length old) (c # cs)) old new
      else c # replace cs old new)"
  by pat_completeness auto
termination
  by (relation "measure (\<lambda>(text, old, new). length text)") auto

section \<open>The literals of \<open>update_catalog.py\<close>\<close>

definition original_block :: string where
  "original_block =
     ''        .product-image {\<newline>'' @
     ''            background: var(--bg-light);\<newline>'' @
     ''            padding: 20px;\<newline>'' @
     ''            display: flex;\<newline>'' @
     ''            justify-content: center;\<newline>'' @
     ''            align-items: center;\<newline>'' @
     ''            height: 220px;\<newline>'' @
     ''        }''"

definition updated_block :: string where
  "updated_block =
     ''        .product-image {\<newline>'' @
     ''            background: var(--bg-light);\<newline>'' @
     ''            padding: 20px;\<newline>'' @
     ''            display: flex;\<newline>'' @
     ''            justify-content: center;\<newline>'' @
     ''            align-items: center;\<newline>'' @
     ''            height: 220px;\<newline>'' @
     ''            position: relative;\<newline>'' @
     ''            overflow: hidden;\<newline>'' @
     ''        }''"

definition img_block :: string where
  "img_block =
     ''        .product-image img {\<newline>'' @
     ''            max-width: 100%;\<newline>'' @
     ''            max-height: 100%;\<newline>'' @
     ''            object-fit: contain;\<newline>'' @
     ''        }''"

definition img_updated :: string where
  "img_updated =
     ''        .product-image img {\<newline>'' @
     ''            max-width: 100%;\<newline>'' @
     ''            max-height: 100%;\<newline>'' @
     ''            object-fit: contain;\<newline>'' @
     ''            transition: opacity 0.3s ease;\<newline>'' @
     ''        }''"

definition carousel_css :: string where
  "carousel_css =
     ''\<newline>'' @
     ''        .product-image.carousel .carousel-nav {\<newline>'' @
     ''            position: absolute;\<newline>'' @
     ''            top: 50%;\<newline>'' @
     ''            transform: translateY(-50%);\<newline>'' @
     ''            background: rgba(35, 31, 32, 0.65);\<newline>'' @
     ''            color: var(--white);\<newline>'' @
     ''            border: none;\<newline>'' @
     ''            width: 32px;\<newline>'' @
     ''            height: 32px;\<newline>'' @
     ''            border-radius: 50%;\<newline>'' @
     ''            display: flex;\<newline>'' @
     ''            align-items: center;\<newline>'' @
     ''            justify-content: center;\<newline>'' @
     ''            cursor: pointer;\<newline>'' @
     ''            opacity: 0;\<newline>'' @
     ''            transition: opacity 0.2s ease;\<newline>'' @
     ''        }\<newline>'' @
     ''\<newline>'' @
     ''        .product-image.carousel:hover .carousel-nav {\<newline>'' @
     ''            opacity: 1;\<newline>'' @
     ''        }\<newline>'' @
     ''\<newline>'' @
     ''        .product-image.carousel .carousel-nav.prev {\<newline>'' @
     ''            left: 12px;\<newline>'' @
     ''        }\<newline>'' @
     ''\<newline>'' @
     ''        .product-image.carousel .carousel-nav.next {\<newline>'' @
     ''            right: 12px;\<newline>'' @
     ''        }\<newline>'' @
     ''\<newline>'' @
     ''        .product-image.carousel .carousel-indicators {\<newline>'' @
     ''            position: absolute;\<newline>'' @
     ''            bottom: 12px;\<newline>'' @
     ''            left: 50%;\<newline>'' @
     ''            transform: translateX(-50%);\<newline>'' @
     ''            display: flex;\<newline>'' @
     ''            gap: 6px;\<newline>'' @
     ''        }\<newline>'' @
     ''\<newline>'' @
     ''        .product-image.carousel .carousel-indicators span {\<newline>'' @
     ''            width: 8px;\<newline>'' @
     ''            height: 8px;\<newline>'' @
     ''            border-radius: 50%;\<newline>'' @
     ''            background: rgba(255, 255, 255, 0.35);\<newline>'' @
     ''            transition: background 0.2s ease;\<newline>'' @
     ''        }\<newline>'' @
     ''\<newline>'' @
     ''        .product-image.carousel .carousel-indicators span.active {\<newline>'' @
     ''            background: var(--psi-red);\<newline>'' @
     ''        }\<newline>'' @
     ''\<newline>'' @
     ''        @media (hover: none) {\<newline>'' @
     ''            .product-image.carousel .carousel-nav {\<newline>'' @
     ''                opacity: 1;\<newline>'' @
     ''            }\<newline>'' @
     ''        }\<newline>''"

definition marker :: string where
  "marker = img_updated @ ''\<newline>''"

definition insert_point :: string where
  "insert_point =
     ''        const filterElements = {\<newline>'' @
     ''            publisher: null,\<newline>'' @
     ''            category: null,\<newline>'' @
     ''            priceBand: null,\<newline>'' @
     ''            sort: null,\<newline>'' @
     ''            clear: null,\<newline>'' @
     ''            count: null\<newline>'' @
     ''        };\<newline>'' @
     ''\<newline>'' @
     ''        let filtersBound = false;\<newline>''"

definition timers_decl :: string where
  "timers_decl =
     ''\<newline>'' @
     ''        const carouselTimers = new Map();\<newline>'' @
     ''\<newline>''"

definition cache_marker :: string where
  "cache_marker =
     ''        function cacheFilterElements() {\<newline>'' @
     ''            if (filterElements.publisher) return;\<newline>'' @
     ''            filterElements.publisher = document.getElementById('filterPublisher');\<newline>'' @
     ''            filterElements.category = document.getElementById('filterCategory');\<newline>'' @
     ''            filterElements.priceBand = document.getElementById('filterPriceBand');\<newline>'' @
     ''            filterElements.sort = document.getElementById('sortProducts');\<newline>'' @
     ''            filterElements.clear = document.getElementById('clearFiltersButton');\<newline>'' @
     ''            filterElements.count = document.getElementById('productsCount');\<newline>'' @
     ''        }\<newline>'' @
     ''\<newline>''"

definition clear_timers_fn :: string where
  "clear_timers_fn =
     ''        function clearCarouselTimers() {\<newline>'' @
     ''            carouselTimers.forEach(id => clearInterval(id));\<newline>'' @
     ''            carouselTimers.clear();\<newline>'' @
     ''        }\<newline>'' @
     ''\<newline>''"

definition primary_marker :: string where
  "primary_marker =
     ''        function productPrimaryImage(product) {\<newline>'' @
     ''            if (product.primaryImage) return product.primaryImage;\<newline>'' @
     ''            if (product.images && product.images.main) return product.images.main;\<newline>'' @
     ''            if (product.images && product.images.front) return product.images.front;\<newline>'' @
     ''            return 'psi.svg';\<newline>'' @
     ''        }\<newline>'' @
     ''\<newline>''"

definition get_images_fn :: string where
  "get_images_fn =
     ''        function getProductImages(product) {\<newline>'' @
     ''            const sources = [\<newline>'' @
     ''                product.primaryImage,\<newline>'' @
     ''                product.images && product.images.main,\<newline>'' @
     ''                product.images && product.images.front,\<newline>'' @
     ''                product.images && product.images.angle,\<newline>'' @
     ''                product.images && product.images.pack\<newline>'' @
     ''            ];\<newline>'' @
     ''            const unique = [];\<newline>'' @
     ''            const seen = new Set();\<newline>'' @
     ''            sources.forEach(source => {\<newline>'' @
     ''                const sanitized = sanitizeImageUrl(source);\<newline>'' @
     ''                if (sanitized && !seen.has(sanitized)) {\<newline>'' @
     ''                    seen.add(sanitized);\<newline>'' @
     ''                    unique.append(sanitized);\<newline>'' @
     ''                }\<newline>'' @
     ''            });\<newline>'' @
     ''            if (!unique):\<newline>'' @
     ''                pass\<newline>'' @
     ''        }\<newline>''"

section \<open>The guarded patch steps\<close>

text \<open>
  The script is straight-line code that rebinds \<open>text\<close> six times. Each guarded
  statement is one function from the text before it to the text after it.
\<close>

definition patch_container :: "string \<Rightarrow> string" where
  "patch_container text =
     (if str_in original_block text then replace text original_block updated_block else text)"

definition patch_img :: "string \<Rightarrow> string" where
  "patch_img text =
     (if str_in img_block text then replace text img_block img_updated else text)"

definition patch_carousel_css :: "string \<Rightarrow> string" where
  "patch_carousel_css text =
     (if \<not> str_in carousel_css text then replace text marker (marker @ carousel_css) else text)"

definition patch_timers :: "string \<Rightarrow> string" where
  "patch_timers text =
     (if \<not> str_in ''const carouselTimers'' text
      then replace text insert_point (insert_point @ timers_decl) else text)"

definition patch_clear_timers :: "string \<Rightarrow> string" where
  "patch_clear_timers text =
     (if \<not> str_in ''function clearCarouselTimers'' text
      then replace text cache_marker (cache_marker @ clear_timers_fn) else text)"

text \<open>
  The last guarded statement only binds two local names; \<open>text\<close> is not rebound.
\<close>

definition patch_get_images :: "string \<Rightarrow> string" where
  "patch_get_images text =
     (if \<not> str_in ''function getProductImages'' text
      then (let pm = primary_marker; gf = get_images_fn in text)
      else text)"

definition apply_patches :: "string \<Rightarrow> string" where
  "apply_patches text =
     patch_get_images (patch_clear_timers (patch_timers
       (patch_carousel_css (patch_img (patch_container text)))))"

section \<open>The script as a whole\<close>

text \<open>
  Storage is a map from file names to contents. \<open>Path.read_text\<close> raises when the file
  is missing; that is the only exception the script can raise. The script ends after the
  last guarded statement: it holds the patched text in \<open>text\<close> and the storage is as
  it found it.
\<close>

datatype error = FileNotFoundError

type_synonym storage = "string \<rightharpoonup> string"

definition main :: "storage \<Rightarrow> error + (storage \<times> string)" where
  "main fs =
     (case fs ''catalog.html'' of
        None \<Rightarrow> Inl FileNotFoundError
      | Some text \<Rightarrow> Inr (fs, apply_patches text))"

section \<open>Deciding occurrences and overlaps of literals\<close>

text \<open>
  Facts about the literals (one does not occur in another, no end of one is a start of
  another) are decided by evaluation. The functions below compute the same as
  \<^const>\<open>prefix\<close>, \<^const>\<open>suffix\<close> and \<^const>\<open>sublist\<close>, but branch on an already
  evaluated Boolean argument, so that the simplifier stops at the first mismatch.
  \<open>ov_chk a q\<close>: some non-empty end of \<open>a\<close> is a start of \<open>q\<close>.
  \<open>apart_chk p q\<close>: in no text can an occurrence of \<open>p\<close> share a position with an
  occurrence of \<open>q\<close>.
  \<open>cut_chk old p ins\<close>: wherever an end of \<open>old\<close> is a start of \<open>p\<close>, it is also an
  end of \<open>ins\<close>, so inserting \<open>ins\<close> after \<open>old\<close> leaves that occurrence of \<open>p\<close> readable.
\<close>

fun pre_chk :: "string \<Rightarrow> string \<Rightarrow> bool"
  and pre_aux :: "bool \<Rightarrow> string \<Rightarrow> string \<Rightarrow> bool" where
  "pre_chk [] t = True"
| "pre_chk (x # xs) [] = False"
| "pre_chk (x # xs) (y # ys) = pre_aux (x = y) xs ys"
| "pre_aux True xs ys = pre_chk xs ys"
| "pre_aux False xs ys = False"

fun sub_chk :: "string \<Rightarrow> string \<Rightarrow> bool"
  and sub_aux :: "bool \<Rightarrow> string \<Rightarrow> string \<Rightarrow> bool" where
  "sub_chk p [] = (p = [])"
| "sub_chk p (y # ys) = sub_aux (pre_chk p (y # ys)) p ys"
| "sub_aux True p ys = True"
| "sub_aux False p ys = sub_chk p ys"

fun ov_chk :: "string \<Rightarrow> string \<Rightarrow> bool"
  and ov_aux :: "bool \<Rightarrow> string \<Rightarrow> string \<Rightarrow> bool" where
  "ov_chk [] q = False"
| "ov_chk (x # xs) q = ov_aux (pre_chk (x # xs) q) xs q"
| "ov_aux True xs q = True"
| "ov_aux False xs q = ov_chk xs q"

definition apart_chk :: "string \<Rightarrow> string \<Rightarrow> bool" where
  "apart_chk p q = (\<not> sub_chk p q \<and> \<not> sub_chk q p \<and> \<not> ov_chk p q \<and> \<not> ov_chk q p)"

definition suf_chk :: "string \<Rightarrow> string \<Rightarrow> bool" where
  "suf_chk s t = pre_chk (rev s) (rev t)"

fun cut_chk :: "string \<Rightarrow> string \<Rightarrow> string \<Rightarrow> bool"
  and cut_aux :: "bool \<Rightarrow> char \<Rightarrow> string \<Rightarrow> string \<Rightarrow> string \<Rightarrow> bool" where
  "cut_chk [] p ins = True"
| "cut_chk (x # xs) p ins = cut_aux (pre_chk (x # xs) p) x xs p ins"
| "cut_aux True x xs p ins = (suf_chk (x # xs) ins \<and> cut_chk xs p ins)"
| "cut_aux False x xs p ins = cut_chk xs p ins"

fun chop :: "string \<Rightarrow> string" where
  "chop [] = []"
| "chop [x] = []"
| "chop (x # y # ys) = x # chop (y # ys)"

section \<open>Properties of \<open>in\<close> and \<open>replace\<close>\<close>

lemma pre_chk_iff: "pre_chk p t = prefix p t" "pre_aux b xs ys = (b \<and> prefix xs ys)"
  by (induction p t and b xs ys rule: pre_chk_pre_aux.induct) auto

lemma sub_chk_iff: "sub_chk p t = sublist p t" "sub_aux b p ys = (b \<or> sublist p ys)"
  by (induction p t and b p ys rule: sub_chk_sub_aux.induct)
     (auto simp: pre_chk_iff sublist_Cons_right)

lemma ov_chk_iff:
  "ov_chk a q = (\<exists>s. s \<noteq> [] \<and> suffix s a \<and> prefix s q)"
  "ov_aux b xs q = (b \<or> (\<exists>s. s \<noteq> [] \<and> suffix s xs \<and> prefix s q))"
  by (induction a q and b xs q rule: ov_chk_ov_aux.induct)
     (auto simp: pre_chk_iff suffix_Cons)

lemma str_in_iff: "str_in sub text = sublist sub text"
  by (induction "text") (auto simp: sublist_Cons_right)

lemma replace_absent: "\<not> sublist old t \<Longrightarrow> replace t old new = t"
proof (induction t)
  case Nil
  then show ?case by auto
next
  case (Cons c cs)
  have "old \<noteq> []" using Cons.prems by auto
  moreover have "\<not> prefix old (c # cs)" using Cons.prems by auto
  moreover have "\<not> sublist old cs" using Cons.prems by (auto simp: sublist_Cons_right)
  ultimately show ?case using Cons.IH by simp
qed

lemma replace_at_head:
  assumes "old \<noteq> []"
  shows "replace (old @ ys) old new = new @ replace ys old new"
proof -
  obtain c cs where t: "old @ ys = c # cs" using assms by (cases old) auto
  have "prefix old (c # cs)" using t by (metis prefixI)
  moreover have "drop (length old) (c # cs) = ys" using t by (metis append_eq_conv_conj)
  ultimately show ?thesis using assms t by simp
qed

lemma replace_first:
  assumes "old \<noteq> []" and "\<not> sublist old (xs @ butlast old)"
  shows "replace (xs @ old @ ys) old new = xs @ new @ replace ys old new"
  using assms(2)
proof (induction xs)
  case Nil
  then show ?case using replace_at_head[OF assms(1)] by simp
next
  case (Cons x xs)
  have np: "\<not> prefix old (x # xs @ old @ ys)"
  proof
    assume p: "prefix old (x # xs @ old @ ys)"
    have e: "x # xs @ old @ ys = (x # xs @ butlast old) @ (last old # ys)"
      using assms(1) by simp
    have "length old \<le> length (x # xs @ butlast old)" by simp
    then have "prefix old (x # xs @ butlast old)"
      using p e by (metis prefix_length_prefix prefixI)
    then show False using Cons.prems by auto
  qed
  have "\<not> sublist old (xs @ butlast old)"
    using Cons.prems by (auto simp: sublist_Cons_right)
  then show ?case using Cons.IH np assms(1) by simp
qed

lemma first_occurrence:
  assumes "old \<noteq> []" and "sublist old t"
  shows "\<exists>xs ys. t = xs @ old @ ys \<and> \<not> sublist old (xs @ butlast old)"
  using assms(2)
proof (induction t)
  case Nil
  then show ?case using assms(1) by simp
next
  case (Cons c cs)
  show ?case
  proof (cases "prefix old (c # cs)")
    case True
    then obtain ys where "c # cs = old @ ys" by (auto simp: prefix_def)
    moreover have "\<not> sublist old (butlast old)"
    proof
      assume "sublist old (butlast old)"
      then have "length old \<le> length (butlast old)" by (rule sublist_length_le)
      moreover have "length (butlast old) < length old" using assms(1) by (cases old) simp_all
      ultimately show False by linarith
    qed
    ultimately show ?thesis by (metis append_Nil)
  next
    case False
    then have "sublist old cs" using Cons.prems by (auto simp: sublist_Cons_right)
    then obtain xs ys where t: "cs = xs @ old @ ys" and f: "\<not> sublist old (xs @ butlast old)"
      using Cons.IH by blast
    have "\<not> prefix old (c # xs @ butlast old)"
    proof
      assume "prefix old (c # xs @ butlast old)"
      then have "prefix old ((c # xs @ butlast old) @ (last old # ys))"
        using prefix_prefix by blast
      moreover have "c # xs @ old @ ys = (c # xs @ butlast old) @ (last old # ys)"
        using assms(1) by simp
      ultimately have "prefix old (c # xs @ old @ ys)" by (simp only:)
      then show False using False t by simp
    qed
    then have "\<not> sublist old ((c # xs) @ butlast old)"
      using f by (auto simp: sublist_Cons_right)
    moreover have "c # cs = (c # xs) @ old @ ys" using t by simp
    ultimately show ?thesis by blast
  qed
qed

lemma apart_chk_D:
  assumes "apart_chk p q"
  shows "\<not> sublist p q" "\<not> sublist q p"
    "\<And>s. s \<noteq> [] \<Longrightarrow> suffix s p \<Longrightarrow> prefix s q \<Longrightarrow> False"
    "\<And>s. s \<noteq> [] \<Longrightarrow> suffix s q \<Longrightarrow> prefix s p \<Longrightarrow> False"
  using assms unfolding apart_chk_def sub_chk_iff ov_chk_iff by blast+

lemma sublist_in_left: "sublist p xs \<Longrightarrow> sublist p (xs @ ys)"
  by (simp add: sublist_append)

lemma sublist_in_right: "sublist p ys \<Longrightarrow> sublist p (xs @ ys)"
  by (simp add: sublist_append)

lemma sublist_around:
  assumes ap: "apart_chk p q" and s: "sublist p (xs @ q @ r)"
  shows "sublist p xs \<or> sublist p r"
proof -
  note d = apart_chk_D[OF ap]
  from s consider (l) "sublist p xs" | (m) "sublist p (q @ r)"
    | (x) p1 p2 where "p = p1 @ p2" "suffix p1 xs" "prefix p2 (q @ r)"
    unfolding sublist_append[of p xs] by blast
  then show ?thesis
  proof cases
    case l
    then show ?thesis by simp
  next
    case m
    then consider (a) "sublist p q" | (b) "sublist p r"
      | (c) p1 p2 where "p = p1 @ p2" "suffix p1 q" "prefix p2 r"
      unfolding sublist_append[of p q] by blast
    then show ?thesis
    proof cases
      case a
      then show ?thesis using d(1) by simp
    next
      case b
      then show ?thesis by simp
    next
      case c
      show ?thesis
      proof (cases "p1 = []")
        case True
        then show ?thesis using c by auto
      next
        case False
        have "prefix p1 p" using c(1) by simp
        then show ?thesis using d(4)[OF False c(2)] by simp
      qed
    qed
  next
    case x
    show ?thesis
    proof (cases "p2 = []")
      case True
      then show ?thesis using x by auto
    next
      case False
      have sp: "suffix p2 p" using x(1) by (simp add: suffix_def)
      from x(3) consider (i) "prefix p2 q" | (ii) us where "p2 = q @ us"
        unfolding prefix_append by blast
      then show ?thesis
      proof cases
        case i
        then show ?thesis using d(3)[OF False sp] by simp
      next
        case ii
        then have "sublist q p" using x(1) by (metis sublist_appendI)
        then show ?thesis using d(2) by simp
      qed
    qed
  qed
qed

lemma replace_creates_none:
  assumes o: "old \<noteq> []" and ap: "apart_chk p new"
  shows "p = old \<or> \<not> sublist p t \<Longrightarrow> \<not> sublist p (replace t old new)"
proof (induction "length t" arbitrary: t rule: less_induct)
  case less
  show ?case
  proof (cases "sublist old t")
    case False
    then show ?thesis using less.prems by (auto simp: replace_absent)
  next
    case True
    then obtain xs ys where t: "t = xs @ old @ ys" and f: "\<not> sublist old (xs @ butlast old)"
      using first_occurrence[OF o] by blast
    have r: "replace t old new = xs @ new @ replace ys old new"
      unfolding t by (rule replace_first[OF o f])
    have "length ys < length t" using t o by simp
    moreover have "p = old \<or> \<not> sublist p ys"
      using less.prems t by (auto intro: sublist_in_right)
    ultimately have ih: "\<not> sublist p (replace ys old new)" by (rule less.hyps)
    have nx: "\<not> sublist p xs"
    proof
      assume a: "sublist p xs"
      then have pt: "sublist p t" unfolding t by (rule sublist_in_left)
      have "sublist p (xs @ butlast old)" using a by (rule sublist_in_left)
      then show False using less.prems pt f by auto
    qed
    show ?thesis unfolding r using sublist_around[OF ap] ih nx by blast
  qed
qed

lemma replace_keeps_untouched:
  assumes o: "old \<noteq> []" and ap: "apart_chk p old"
  shows "sublist p t \<Longrightarrow> sublist p (replace t old new)"
proof (induction "length t" arbitrary: t rule: less_induct)
  case less
  show ?case
  proof (cases "sublist old t")
    case False
    then show ?thesis using less.prems by (simp add: replace_absent)
  next
    case True
    then obtain xs ys where t: "t = xs @ old @ ys" and f: "\<not> sublist old (xs @ butlast old)"
      using first_occurrence[OF o] by blast
    have r: "replace t old new = xs @ new @ replace ys old new"
      unfolding t by (rule replace_first[OF o f])
    have l: "length ys < length t" using t o by simp
    from less.prems have "sublist p xs \<or> sublist p ys"
      unfolding t by (rule sublist_around[OF ap])
    then show ?thesis
    proof
      assume "sublist p xs"
      then show ?thesis unfolding r by (rule sublist_in_left)
    next
      assume "sublist p ys"
      then have "sublist p (replace ys old new)" using less.hyps[OF l] by simp
      then show ?thesis unfolding r by (intro sublist_in_right)
    qed
  qed
qed

lemma replace_keeps_prefix:
  assumes o: "old \<noteq> []" and n: "\<not> sublist old q" and p: "prefix q t"
  shows "prefix q (replace t old (old @ ins))"
proof (cases "sublist old t")
  case False
  then show ?thesis using p by (simp add: replace_absent)
next
  case True
  then obtain xs ys where t: "t = xs @ old @ ys" and f: "\<not> sublist old (xs @ butlast old)"
    using first_occurrence[OF o] by blast
  have r: "replace t old (old @ ins) = (xs @ old) @ ins @ replace ys old (old @ ins)"
    unfolding t using replace_first[OF o f] by simp
  have "prefix q ((xs @ old) @ ys)" using p t by simp
  then consider (a) "prefix q (xs @ old)" | (b) us where "q = (xs @ old) @ us"
    unfolding prefix_append[of q "xs @ old"] by blast
  then show ?thesis
  proof cases
    case a
    then show ?thesis unfolding r using prefix_prefix by blast
  next
    case b
    then have "sublist old q" by (metis sublist_appendI append_assoc)
    then show ?thesis using n by simp
  qed
qed

lemma replace_keeps_inserted:
  assumes o: "old \<noteq> []" and n: "\<not> sublist old p"
    and c: "\<And>s. s \<noteq> [] \<Longrightarrow> suffix s old \<Longrightarrow> prefix s p \<Longrightarrow> suffix s ins"
  shows "sublist p t \<Longrightarrow> sublist p (replace t old (old @ ins))"
proof (induction "length t" arbitrary: t rule: less_induct)
  case less
  let ?R = "\<lambda>u. replace u old (old @ ins)"
  show ?case
  proof (cases "sublist old t")
    case False
    then show ?thesis using less.prems by (simp add: replace_absent)
  next
    case True
    then obtain xs ys where t: "t = xs @ old @ ys" and f: "\<not> sublist old (xs @ butlast old)"
      using first_occurrence[OF o] by blast
    have r: "?R t = (xs @ old) @ ins @ ?R ys"
      unfolding t using replace_first[OF o f] by simp
    have l: "length ys < length t" using t o by simp
    have inl: "sublist p (xs @ old) \<Longrightarrow> ?thesis" unfolding r
      by (rule sublist_in_left)
    have inr: "sublist p ys \<Longrightarrow> ?thesis"
    proof -
      assume "sublist p ys"
      then have "sublist p (?R ys)" using less.hyps[OF l] by simp
      then show ?thesis unfolding r by (intro sublist_in_right)
    qed
    have "sublist p ((xs @ old) @ ys)" using less.prems t by simp
    then consider (a) "sublist p (xs @ old)" | (b) "sublist p ys"
      | (x) p1 p2 where "p = p1 @ p2" "suffix p1 (xs @ old)" "prefix p2 ys"
      unfolding sublist_append[of p "xs @ old"] by blast
    then show ?thesis
    proof cases
      case a
      then show ?thesis by (rule inl)
    next
      case b
      then show ?thesis by (rule inr)
    next
      case x
      show ?thesis
      proof (cases "p1 = [] \<or> p2 = []")
        case True
        then show ?thesis
        proof
          assume "p1 = []"
          then have "sublist p ys" using x by auto
          then show ?thesis by (rule inr)
        next
          assume "p2 = []"
          then have "sublist p (xs @ old)" using x by auto
          then show ?thesis by (rule inl)
        qed
      next
        case False
        from x(2) consider (i) "suffix p1 old" | (ii) us where "p1 = us @ old"
          unfolding suffix_append by blast
        then show ?thesis
        proof cases
          case ii
          then have "sublist old p" using x(1) by (metis sublist_appendI append_assoc)
          then show ?thesis using n by simp
        next
          case i
          have "prefix p1 p" using x(1) by simp
          then have "suffix p1 ins" using c i False by blast
          then obtain i' where ins: "ins = i' @ p1" by (auto simp: suffix_def)
          have "\<not> sublist old p2" using n x(1) by (auto intro: sublist_in_right)
          then have "prefix p2 (?R ys)" using replace_keeps_prefix[OF o _ x(3)] by blast
          then obtain r' where rr: "?R ys = p2 @ r'" by (auto simp: prefix_def)
          have "?R t = (xs @ old @ i') @ p @ r'" using r rr ins x(1) by simp
          then show ?thesis by (metis sublist_appendI)
        qed
      qed
    qed
  qed
qed

lemma replace_around:
  assumes o: "old \<noteq> []" and b: "\<not> ov_chk (tl old) old"
  shows "replace (xs @ old @ ys) old new = replace xs old new @ new @ replace ys old new"
proof (induction "length xs" arbitrary: xs rule: less_induct)
  case less
  show ?case
  proof (cases xs)
    case Nil
    then show ?thesis using replace_at_head[OF o] o by simp
  next
    case (Cons c cs)
    show ?thesis
    proof (cases "prefix old (xs @ old @ ys)")
      case False
      then have "\<not> prefix old xs" using prefix_prefix by blast
      moreover have "replace (cs @ old @ ys) old new = replace cs old new @ new @ replace ys old new"
        by (rule less.hyps) (simp add: Cons)
      ultimately show ?thesis using False o unfolding Cons by simp
    next
      case True
      show ?thesis
      proof (cases "length old \<le> length xs")
        case le: True
        have px: "prefix old xs"
          using True le by (metis prefix_length_prefix prefixI)
        have d: "drop (length old) (xs @ old @ ys) = drop (length old) xs @ old @ ys"
          using le by simp
        have "length (drop (length old) xs) < length xs" using o Cons by simp
        then have ih: "replace (drop (length old) xs @ old @ ys) old new
            = replace (drop (length old) xs) old new @ new @ replace ys old new"
          by (rule less.hyps)
        have "replace (xs @ old @ ys) old new
            = new @ replace (drop (length old) (xs @ old @ ys)) old new"
          using True o unfolding Cons by simp
        moreover have "replace xs old new = new @ replace (drop (length old) xs) old new"
          using px o unfolding Cons by simp
        ultimately show ?thesis unfolding d ih by simp
      next
        case gt: False
        have "prefix xs (xs @ old @ ys)" by simp
        then have "prefix xs old" using True gt
          by (metis prefix_length_prefix nat_le_linear)
        then obtain r where r: "old = xs @ r" by (auto simp: prefix_def)
        have rn: "r \<noteq> []" using gt r by auto
        have "prefix (xs @ r) (xs @ old @ ys)" using True r by simp
        then have "prefix r (old @ ys)" by simp
        moreover have "length r \<le> length old" using r by simp
        ultimately have "prefix r old" by (metis prefix_length_prefix prefixI)
        moreover have "suffix r (tl old)" using r Cons by (simp add: suffix_def)
        ultimately show ?thesis using b rn unfolding ov_chk_iff by blast
      qed
    qed
  qed
qed

lemma length_replace:
  "length old \<le> length new \<Longrightarrow> length t \<le> length (replace t old new)"
proof (induction t old new rule: replace.induct)
  case (1 old new)
  then show ?case by simp
next
  case (2 c cs old new)
  show ?case
  proof (cases "old \<noteq> [] \<and> prefix old (c # cs)")
    case True
    then have "length old \<le> length (c # cs)" using prefix_length_le by blast
    moreover have "length (drop (length old) (c # cs))
        \<le> length (replace (drop (length old) (c # cs)) old new)"
      using 2 True by simp
    ultimately show ?thesis using True "2.prems" by simp
  next
    case False
    then show ?thesis using 2 by auto
  qed
qed

lemma suf_chk_iff: "suf_chk s t = suffix s t"
  by (simp add: suf_chk_def pre_chk_iff suffix_to_prefix)

lemma cut_chk_iff:
  "cut_chk a p ins = (\<forall>s. s \<noteq> [] \<and> suffix s a \<and> prefix s p \<longrightarrow> suffix s ins)"
  "cut_aux b x xs p ins = ((b \<longrightarrow> suffix (x # xs) ins) \<and> (\<forall>s. s \<noteq> [] \<and> suffix s xs \<and> prefix s p \<longrightarrow> suffix s ins))"
  by (induction a p ins and b x xs p ins rule: cut_chk_cut_aux.induct)
     (auto simp: pre_chk_iff suffix_Cons suf_chk_iff)

section \<open>Facts about the literals\<close>

text \<open>
  Each fact below is decided by evaluating a checker on the literals.
\<close>

lemmas lits = original_block_def updated_block_def img_block_def img_updated_def carousel_css_def
  marker_def insert_point_def timers_decl_def cache_marker_def clear_timers_fn_def suf_chk_def

lemma apart_original_updated: "apart_chk original_block updated_block" by (simp add: apart_chk_def lits)
lemma apart_original_img_updated: "apart_chk original_block img_updated" by (simp add: apart_chk_def lits)
lemma apart_original_css_insert: "apart_chk original_block (marker @ carousel_css)" by (simp add: apart_chk_def lits)
lemma apart_original_timers_insert: "apart_chk original_block (insert_point @ timers_decl)" by (simp add: apart_chk_def lits)
lemma apart_original_clear_insert: "apart_chk original_block (cache_marker @ clear_timers_fn)" by (simp add: apart_chk_def lits)
lemma apart_img_img_updated: "apart_chk img_block img_updated" by (simp add: apart_chk_def lits)
lemma apart_img_css_insert: "apart_chk img_block (marker @ carousel_css)" by (simp add: apart_chk_def lits)
lemma apart_img_timers_insert: "apart_chk img_block (insert_point @ timers_decl)" by (simp add: apart_chk_def lits)
lemma apart_img_clear_insert: "apart_chk img_block (cache_marker @ clear_timers_fn)" by (simp add: apart_chk_def lits)
lemma apart_marker_timers_insert: "apart_chk marker (insert_point @ timers_decl)" by (simp add: apart_chk_def lits)
lemma apart_marker_clear_insert: "apart_chk marker (cache_marker @ clear_timers_fn)" by (simp add: apart_chk_def lits)
lemma apart_insert_point_clear_insert: "apart_chk insert_point (cache_marker @ clear_timers_fn)" by (simp add: apart_chk_def lits)
lemma apart_get_images_updated: "apart_chk ''function getProductImages'' updated_block" by (simp add: apart_chk_def lits)
lemma apart_get_images_img_updated: "apart_chk ''function getProductImages'' img_updated" by (simp add: apart_chk_def lits)
lemma apart_get_images_css_insert: "apart_chk ''function getProductImages'' (marker @ carousel_css)" by (simp add: apart_chk_def lits)
lemma apart_get_images_timers_insert: "apart_chk ''function getProductImages'' (insert_point @ timers_decl)" by (simp add: apart_chk_def lits)
lemma apart_get_images_clear_insert: "apart_chk ''function getProductImages'' (cache_marker @ clear_timers_fn)" by (simp add: apart_chk_def lits)
lemma apart_get_images_original: "apart_chk ''function getProductImages'' original_block" by (simp add: apart_chk_def lits)
lemma apart_get_images_img: "apart_chk ''function getProductImages'' img_block" by (simp add: apart_chk_def lits)
lemma uncut_get_images_marker: "\<not> sub_chk marker ''function getProductImages'' \<and> cut_chk marker ''function getProductImages'' carousel_css" by (simp add: lits)
lemma uncut_get_images_insert_point: "\<not> sub_chk insert_point ''function getProductImages'' \<and> cut_chk insert_point ''function getProductImages'' timers_decl" by (simp add: lits)
lemma uncut_get_images_cache_marker: "\<not> sub_chk cache_marker ''function getProductImages'' \<and> cut_chk cache_marker ''function getProductImages'' clear_timers_fn" by (simp add: lits)
lemma uncut_css_insert_point: "\<not> sub_chk insert_point carousel_css \<and> cut_chk insert_point carousel_css timers_decl" by (simp add: lits)
lemma uncut_css_cache_marker: "\<not> sub_chk cache_marker carousel_css \<and> cut_chk cache_marker carousel_css clear_timers_fn" by (simp add: lits)
lemma uncut_timers_key_cache_marker: "\<not> sub_chk cache_marker ''const carouselTimers'' \<and> cut_chk cache_marker ''const carouselTimers'' clear_timers_fn" by (simp add: lits)
lemma apart_img_updated_block: "apart_chk img_block updated_block" by (simp add: apart_chk_def lits)
lemma apart_marker_updated: "apart_chk marker updated_block" by (simp add: apart_chk_def lits)
lemma apart_insert_point_updated: "apart_chk insert_point updated_block" by (simp add: apart_chk_def lits)
lemma apart_cache_marker_updated: "apart_chk cache_marker updated_block" by (simp add: apart_chk_def lits)
lemma apart_insert_point_img_updated: "apart_chk insert_point img_updated" by (simp add: apart_chk_def lits)
lemma apart_cache_marker_img_updated: "apart_chk cache_marker img_updated" by (simp add: apart_chk_def lits)
lemma apart_img_line_original: "apart_chk (img_block @ ''\<newline>'') original_block" by (simp add: apart_chk_def lits)
lemma apart_css_updated: "apart_chk carousel_css updated_block" by (simp add: apart_chk_def lits)
lemma apart_css_img_updated: "apart_chk carousel_css img_updated" by (simp add: apart_chk_def lits)
lemma img_block_unbordered: "\<not> ov_chk (tl img_block) img_block" by (simp add: lits)
lemma uncut_anchor_css_insert_point: "\<not> sub_chk insert_point (marker @ carousel_css) \<and> cut_chk insert_point (marker @ carousel_css) timers_decl" by (simp add: lits)
lemma uncut_anchor_css_cache_marker: "\<not> sub_chk cache_marker (marker @ carousel_css) \<and> cut_chk cache_marker (marker @ carousel_css) clear_timers_fn" by (simp add: lits)

lemma apart_css_img: "apart_chk carousel_css img_block" by (simp add: apart_chk_def lits)

lemma nonempty:
  "original_block \<noteq> []" "img_block \<noteq> []" "marker \<noteq> []" "insert_point \<noteq> []" "cache_marker \<noteq> []"
  by (simp_all add: lits)

lemma absent_if_longer: "length t < length p \<Longrightarrow> \<not> sublist p t"
  using sublist_length_le[of p t] by auto

lemma lens:
  "length original_block = 226" "length updated_block = 288" "length img_block = 130"
  "length img_updated = 173" "length marker = 174" "length carousel_css = 1543"
  "length insert_point = 238" "length timers_decl = 44" "length cache_marker = 583"
  "length clear_timers_fn = 149"
  by (simp_all add: lits)

section \<open>The guarded steps, one at a time\<close>

subsection \<open>A step whose target is absent\<close>

lemma container_absent: "\<not> sublist original_block t \<Longrightarrow> patch_container t = t"
  by (simp add: patch_container_def str_in_iff)

lemma img_absent: "\<not> sublist img_block t \<Longrightarrow> patch_img t = t"
  by (simp add: patch_img_def str_in_iff)

lemma css_absent: "\<not> sublist marker t \<Longrightarrow> patch_carousel_css t = t"
  by (simp add: patch_carousel_css_def replace_absent)

lemma timers_absent: "\<not> sublist insert_point t \<Longrightarrow> patch_timers t = t"
  by (simp add: patch_timers_def replace_absent)

lemma clear_absent: "\<not> sublist cache_marker t \<Longrightarrow> patch_clear_timers t = t"
  by (simp add: patch_clear_timers_def replace_absent)

lemma get_images_id: "patch_get_images t = t"
  by (simp add: patch_get_images_def)

subsection \<open>What a step cannot create\<close>

lemma container_creates_none:
  "apart_chk p updated_block \<Longrightarrow> p = original_block \<or> \<not> sublist p t
    \<Longrightarrow> \<not> sublist p (patch_container t)"
  using replace_creates_none[OF nonempty(1), of p updated_block t]
  by (auto simp: patch_container_def str_in_iff)

lemma img_creates_none:
  "apart_chk p img_updated \<Longrightarrow> p = img_block \<or> \<not> sublist p t
    \<Longrightarrow> \<not> sublist p (patch_img t)"
  using replace_creates_none[OF nonempty(2), of p img_updated t]
  by (auto simp: patch_img_def str_in_iff)

lemma css_creates_none:
  "apart_chk p (marker @ carousel_css) \<Longrightarrow> \<not> sublist p t
    \<Longrightarrow> \<not> sublist p (patch_carousel_css t)"
  using replace_creates_none[OF nonempty(3), of p "marker @ carousel_css" t]
  by (auto simp: patch_carousel_css_def)

lemma timers_creates_none:
  "apart_chk p (insert_point @ timers_decl) \<Longrightarrow> \<not> sublist p t
    \<Longrightarrow> \<not> sublist p (patch_timers t)"
  using replace_creates_none[OF nonempty(4), of p "insert_point @ timers_decl" t]
  by (auto simp: patch_timers_def)

lemma clear_creates_none:
  "apart_chk p (cache_marker @ clear_timers_fn) \<Longrightarrow> \<not> sublist p t
    \<Longrightarrow> \<not> sublist p (patch_clear_timers t)"
  using replace_creates_none[OF nonempty(5), of p "cache_marker @ clear_timers_fn" t]
  by (auto simp: patch_clear_timers_def)

subsection \<open>What a step cannot destroy\<close>

lemma container_keeps:
  "apart_chk p original_block \<Longrightarrow> sublist p t \<Longrightarrow> sublist p (patch_container t)"
  using replace_keeps_untouched[OF nonempty(1), of p t updated_block]
  by (auto simp: patch_container_def str_in_iff)

lemma img_keeps:
  "apart_chk p img_block \<Longrightarrow> sublist p t \<Longrightarrow> sublist p (patch_img t)"
  using replace_keeps_untouched[OF nonempty(2), of p t img_updated]
  by (auto simp: patch_img_def str_in_iff)

lemma keeps_inserted:
  assumes "old \<noteq> []" and "\<not> sub_chk old p \<and> cut_chk old p ins" and "sublist p t"
  shows "sublist p (replace t old (old @ ins))"
  using assms(2) replace_keeps_inserted[OF assms(1) _ _ assms(3), of ins]
  unfolding sub_chk_iff cut_chk_iff by blast

lemma css_keeps:
  "\<not> sub_chk marker p \<and> cut_chk marker p carousel_css \<Longrightarrow> sublist p t
    \<Longrightarrow> sublist p (patch_carousel_css t)"
  using keeps_inserted[OF nonempty(3), of p carousel_css t]
  by (auto simp: patch_carousel_css_def)

lemma timers_keeps:
  "\<not> sub_chk insert_point p \<and> cut_chk insert_point p timers_decl \<Longrightarrow> sublist p t
    \<Longrightarrow> sublist p (patch_timers t)"
  using keeps_inserted[OF nonempty(4), of p timers_decl t]
  by (auto simp: patch_timers_def)

lemma clear_keeps:
  "\<not> sub_chk cache_marker p \<and> cut_chk cache_marker p clear_timers_fn \<Longrightarrow> sublist p t
    \<Longrightarrow> sublist p (patch_clear_timers t)"
  using keeps_inserted[OF nonempty(5), of p clear_timers_fn t]
  by (auto simp: patch_clear_timers_def)

subsection \<open>What an insertion leaves behind\<close>

lemma inserted_present:
  assumes "old \<noteq> []" and "sublist old t" and "sublist g ins"
  shows "sublist g (replace t old (old @ ins))"
proof -
  obtain xs ys where t: "t = xs @ old @ ys" and f: "\<not> sublist old (xs @ butlast old)"
    using first_occurrence[OF assms(1,2)] by blast
  have "replace t old (old @ ins) = (xs @ old) @ ins @ replace ys old (old @ ins)"
    unfolding t using replace_first[OF assms(1) f] by simp
  moreover have "sublist g (ins @ replace ys old (old @ ins))"
    using assms(3) by (rule sublist_in_left)
  ultimately show ?thesis by (simp only: sublist_in_right)
qed

lemma css_detector:
  "sublist carousel_css (patch_carousel_css t) \<or> \<not> sublist marker (patch_carousel_css t)"
proof (cases "sublist carousel_css t")
  case True
  then show ?thesis by (simp add: patch_carousel_css_def str_in_iff)
next
  case False
  show ?thesis
  proof (cases "sublist marker t")
    case True
    have "sublist carousel_css (replace t marker (marker @ carousel_css))"
      by (rule inserted_present[OF nonempty(3) True]) simp
    then show ?thesis using False by (simp add: patch_carousel_css_def str_in_iff)
  next
    case False
    then show ?thesis by (simp add: css_absent)
  qed
qed

lemma key_in_timers_decl: "sublist ''const carouselTimers'' timers_decl"
  unfolding sub_chk_iff(1)[symmetric] by (simp add: lits)

lemma key_in_clear_timers_fn: "sublist ''function clearCarouselTimers'' clear_timers_fn"
  unfolding sub_chk_iff(1)[symmetric] by (simp add: lits)

lemma timers_detector:
  "sublist ''const carouselTimers'' (patch_timers t) \<or> \<not> sublist insert_point (patch_timers t)"
proof (cases "sublist ''const carouselTimers'' t")
  case True
  then show ?thesis by (simp add: patch_timers_def str_in_iff)
next
  case False
  show ?thesis
  proof (cases "sublist insert_point t")
    case True
    have "sublist ''const carouselTimers'' (replace t insert_point (insert_point @ timers_decl))"
      by (rule inserted_present[OF nonempty(4) True key_in_timers_decl])
    then show ?thesis using False by (simp add: patch_timers_def str_in_iff)
  next
    case False
    then show ?thesis by (simp add: timers_absent)
  qed
qed

lemma clear_detector:
  "sublist ''function clearCarouselTimers'' (patch_clear_timers t)
    \<or> \<not> sublist cache_marker (patch_clear_timers t)"
proof (cases "sublist ''function clearCarouselTimers'' t")
  case True
  then show ?thesis by (simp add: patch_clear_timers_def str_in_iff)
next
  case False
  show ?thesis
  proof (cases "sublist cache_marker t")
    case True
    have "sublist ''function clearCarouselTimers''
        (replace t cache_marker (cache_marker @ clear_timers_fn))"
      by (rule inserted_present[OF nonempty(5) True key_in_clear_timers_fn])
    then show ?thesis using False by (simp add: patch_clear_timers_def str_in_iff)
  next
    case False
    then show ?thesis by (simp add: clear_absent)
  qed
qed

section \<open>The pipeline\<close>

text \<open>
  Claim C1. Idempotence of the whole pipeline: for every text \<open>T\<close>, running the six guarded
  steps on the result of a first run gives that result again. A text that already reflects
  every rule is such a result, so it is left unchanged.
\<close>

theorem apply_patches_idempotent: "apply_patches (apply_patches T) = apply_patches T"
proof -
  define t1 where "t1 = patch_container T"
  define t2 where "t2 = patch_img t1"
  define t3 where "t3 = patch_carousel_css t2"
  define t4 where "t4 = patch_timers t3"
  define t5 where "t5 = patch_clear_timers t4"
  have F: "apply_patches T = t5"
    by (simp add: apply_patches_def get_images_id t1_def t2_def t3_def t4_def t5_def)
  have "\<not> sublist original_block t1"
    unfolding t1_def by (rule container_creates_none[OF apart_original_updated]) simp
  then have "\<not> sublist original_block t2"
    unfolding t2_def by (intro img_creates_none[OF apart_original_img_updated]) simp
  then have "\<not> sublist original_block t3"
    unfolding t3_def by (rule css_creates_none[OF apart_original_css_insert])
  then have "\<not> sublist original_block t4"
    unfolding t4_def by (rule timers_creates_none[OF apart_original_timers_insert])
  then have A: "\<not> sublist original_block t5"
    unfolding t5_def by (rule clear_creates_none[OF apart_original_clear_insert])
  have "\<not> sublist img_block t2"
    unfolding t2_def by (rule img_creates_none[OF apart_img_img_updated]) simp
  then have "\<not> sublist img_block t3"
    unfolding t3_def by (rule css_creates_none[OF apart_img_css_insert])
  then have "\<not> sublist img_block t4"
    unfolding t4_def by (rule timers_creates_none[OF apart_img_timers_insert])
  then have B: "\<not> sublist img_block t5"
    unfolding t5_def by (rule clear_creates_none[OF apart_img_clear_insert])
  have "sublist carousel_css t3 \<or> \<not> sublist marker t3"
    unfolding t3_def by (rule css_detector)
  then have "sublist carousel_css t4 \<or> \<not> sublist marker t4"
    unfolding t4_def using timers_keeps[OF uncut_css_insert_point] timers_creates_none[OF apart_marker_timers_insert] by blast
  then have C: "sublist carousel_css t5 \<or> \<not> sublist marker t5"
    unfolding t5_def using clear_keeps[OF uncut_css_cache_marker] clear_creates_none[OF apart_marker_clear_insert] by blast
  have "sublist ''const carouselTimers'' t4 \<or> \<not> sublist insert_point t4"
    unfolding t4_def by (rule timers_detector)
  then have D: "sublist ''const carouselTimers'' t5 \<or> \<not> sublist insert_point t5"
    unfolding t5_def using clear_keeps[OF uncut_timers_key_cache_marker] clear_creates_none[OF apart_insert_point_clear_insert] by blast
  have E: "sublist ''function clearCarouselTimers'' t5 \<or> \<not> sublist cache_marker t5"
    unfolding t5_def by (rule clear_detector)
  have s1: "patch_container t5 = t5" using A by (rule container_absent)
  have s2: "patch_img t5 = t5" using B by (rule img_absent)
  have s3: "patch_carousel_css t5 = t5"
    using C by (auto simp: patch_carousel_css_def str_in_iff replace_absent)
  have s4: "patch_timers t5 = t5"
    using D by (auto simp: patch_timers_def str_in_iff replace_absent)
  have s5: "patch_clear_timers t5 = t5"
    using E by (auto simp: patch_clear_timers_def str_in_iff replace_absent)
  have "apply_patches t5 = t5"
    by (simp add: apply_patches_def get_images_id s1 s2 s3 s4 s5)
  then show ?thesis unfolding F .
qed

lemma replace_whole: "old \<noteq> [] \<Longrightarrow> replace old old new = new"
  using replace_at_head[of old "[]" new] by simp

lemma str_in_chk: "str_in p t = sub_chk p t"
  by (simp add: str_in_iff sub_chk_iff)

lemma not_in_if_longer: "length t < length p \<Longrightarrow> \<not> str_in p t"
  by (simp add: str_in_iff absent_if_longer)

lemma butlast_chop: "butlast xs = chop xs"
  by (induction xs rule: chop.induct) simp_all

lemma patched_original: "apply_patches original_block = updated_block"
proof -
  have "patch_container original_block = updated_block"
    by (simp add: patch_container_def str_in_iff replace_whole[OF nonempty(1)])
  moreover have "patch_img updated_block = updated_block"
    by (rule img_absent[OF apart_chk_D(1)[OF apart_img_updated_block]])
  moreover have "patch_carousel_css updated_block = updated_block"
    by (rule css_absent[OF apart_chk_D(1)[OF apart_marker_updated]])
  moreover have "patch_timers updated_block = updated_block"
    by (rule timers_absent[OF apart_chk_D(1)[OF apart_insert_point_updated]])
  moreover have "patch_clear_timers updated_block = updated_block"
    by (rule clear_absent[OF apart_chk_D(1)[OF apart_cache_marker_updated]])
  ultimately show ?thesis by (simp add: apply_patches_def get_images_id)
qed

text \<open>
  Claim C2. The claim is that after a normal run the stored file holds the patched text.
  The script reads \<open>catalog.html\<close> and patches the text in memory, and ends without
  writing: on a store whose file is the unpatched container block the run ends normally
  with the store as it was, while the text it computed is the updated block, which differs.
\<close>

theorem main_never_writes_back:
  "main [''catalog.html'' \<mapsto> original_block]
     = Inr ([''catalog.html'' \<mapsto> original_block], updated_block)
   \<and> updated_block \<noteq> original_block"
proof -
  have "length updated_block \<noteq> length original_block" by (simp add: lens)
  then have "updated_block \<noteq> original_block" by auto
  then show ?thesis by (simp add: main_def patched_original)
qed

lemma insert_after_first:
  assumes "old \<noteq> []" and "\<not> sublist old (pre @ butlast old)"
  shows "replace (pre @ old @ post) old (old @ ins)
      = pre @ old @ ins @ replace post old (old @ ins)"
  using replace_first[OF assms, of post "old @ ins"] by simp

text \<open>
  Claim C3, as amended. When an insertion rule fires on \<open>pre @ anchor @ post\<close> and this is
  the first occurrence of the anchor, the result is \<open>pre\<close>, the anchor, the inserted
  content, and then the remainder \<open>post\<close> treated by the same replacement: \<open>str.replace\<close>
  inserts after every later non-overlapping occurrence too. If the anchor does not occur in
  \<open>post\<close> the remainder is unchanged. Stated for the three insertion rules.
\<close>

theorem insertion_after_every_occurrence:
  "(\<not> str_in carousel_css (pre @ marker @ post) \<and> \<not> str_in marker (pre @ butlast marker) \<longrightarrow>
      patch_carousel_css (pre @ marker @ post)
        = pre @ marker @ carousel_css @ replace post marker (marker @ carousel_css)
      \<and> (\<not> str_in marker post \<longrightarrow>
           patch_carousel_css (pre @ marker @ post) = pre @ marker @ carousel_css @ post))
   \<and> (\<not> str_in ''const carouselTimers'' (pre @ insert_point @ post)
        \<and> \<not> str_in insert_point (pre @ butlast insert_point) \<longrightarrow>
      patch_timers (pre @ insert_point @ post)
        = pre @ insert_point @ timers_decl @ replace post insert_point (insert_point @ timers_decl)
      \<and> (\<not> str_in insert_point post \<longrightarrow>
           patch_timers (pre @ insert_point @ post) = pre @ insert_point @ timers_decl @ post))
   \<and> (\<not> str_in ''function clearCarouselTimers'' (pre @ cache_marker @ post)
        \<and> \<not> str_in cache_marker (pre @ butlast cache_marker) \<longrightarrow>
      patch_clear_timers (pre @ cache_marker @ post)
        = pre @ cache_marker @ clear_timers_fn
            @ replace post cache_marker (cache_marker @ clear_timers_fn)
      \<and> (\<not> str_in cache_marker post \<longrightarrow>
           patch_clear_timers (pre @ cache_marker @ post)
             = pre @ cache_marker @ clear_timers_fn @ post))"
  by (simp add: patch_carousel_css_def patch_timers_def patch_clear_timers_def str_in_iff
      insert_after_first nonempty replace_absent)

theorem insertion_after_every_occurrence_witness:
  "patch_carousel_css (''<x>'' @ marker @ ''</x>'') = ''<x>'' @ marker @ carousel_css @ ''</x>''
   \<and> patch_timers (''<x>'' @ insert_point @ ''</x>'')
       = ''<x>'' @ insert_point @ timers_decl @ ''</x>''
   \<and> patch_clear_timers (''<x>'' @ cache_marker @ ''</x>'')
       = ''<x>'' @ cache_marker @ clear_timers_fn @ ''</x>''"
proof -
  have 1: "\<not> str_in carousel_css (''<x>'' @ marker @ ''</x>'')"
    by (rule not_in_if_longer) (simp add: lens)
  have 2: "\<not> str_in marker (''<x>'' @ butlast marker)"
    by (simp add: str_in_chk butlast_chop lits del: butlast.simps)
  have 3: "\<not> str_in marker ''</x>''"
    by (rule not_in_if_longer) (simp add: lens)
  have 4: "\<not> str_in ''const carouselTimers'' (''<x>'' @ insert_point @ ''</x>'')"
    by (simp add: str_in_chk butlast_chop lits del: butlast.simps)
  have 5: "\<not> str_in insert_point (''<x>'' @ butlast insert_point)"
    by (simp add: str_in_chk butlast_chop lits del: butlast.simps)
  have 6: "\<not> str_in insert_point ''</x>''"
    by (rule not_in_if_longer) (simp add: lens)
  have 7: "\<not> str_in ''function clearCarouselTimers'' (''<x>'' @ cache_marker @ ''</x>'')"
    by (simp add: str_in_chk butlast_chop lits del: butlast.simps)
  have 8: "\<not> str_in cache_marker (''<x>'' @ butlast cache_marker)"
    by (simp add: str_in_chk butlast_chop lits del: butlast.simps)
  have 9: "\<not> str_in cache_marker ''</x>''"
    by (rule not_in_if_longer) (simp add: lens)
  show ?thesis
    using insertion_after_every_occurrence[of "''<x>''" "''</x>''"] 1 2 3 4 5 6 7 8 9
    by blast
qed

text \<open>
  Claim C3 as stated (content after the first occurrence only, the remainder unchanged) fails
  on the text made of the carousel anchor twice: the content is inserted after both.
\<close>

theorem first_occurrence_only_counterexample:
  "\<not> str_in carousel_css (marker @ marker)
   \<and> \<not> str_in marker ([] @ butlast marker)
   \<and> patch_carousel_css ([] @ marker @ marker) = marker @ carousel_css @ marker @ carousel_css
   \<and> patch_carousel_css ([] @ marker @ marker) \<noteq> [] @ marker @ carousel_css @ marker"
proof -
  have 1: "\<not> str_in carousel_css (marker @ marker)"
    by (rule not_in_if_longer) (simp add: lens)
  have 2: "\<not> str_in marker ([] @ butlast marker)"
    by (rule not_in_if_longer) (simp add: lens)
  have "replace (marker @ marker) marker (marker @ carousel_css)
      = (marker @ carousel_css) @ replace (marker @ []) marker (marker @ carousel_css)"
    using replace_at_head[OF nonempty(3)] by simp
  also have "\<dots> = (marker @ carousel_css) @ (marker @ carousel_css) @ replace [] marker (marker @ carousel_css)"
    using replace_at_head[OF nonempty(3), of "[]"] by simp
  finally have r: "replace (marker @ marker) marker (marker @ carousel_css)
      = marker @ carousel_css @ marker @ carousel_css"
    using nonempty(3) by simp
  have 3: "patch_carousel_css ([] @ marker @ marker) = marker @ carousel_css @ marker @ carousel_css"
    using 1 r by (simp add: patch_carousel_css_def)
  have "length (marker @ carousel_css @ marker @ carousel_css) \<noteq> length ([] @ marker @ carousel_css @ marker)"
    by (simp add: lens)
  then have "marker @ carousel_css @ marker @ carousel_css \<noteq> [] @ marker @ carousel_css @ marker"
    by metis
  then show ?thesis using 1 2 3 by simp
qed

text \<open>
  Claim C4. A text that contains none of the two before-blocks and none of the three anchors
  is returned unchanged by the whole pipeline.
\<close>

theorem absent_targets_noop:
  "\<not> str_in original_block T \<Longrightarrow> \<not> str_in img_block T \<Longrightarrow> \<not> str_in marker T
    \<Longrightarrow> \<not> str_in insert_point T \<Longrightarrow> \<not> str_in cache_marker T
    \<Longrightarrow> apply_patches T = T"
  by (simp add: apply_patches_def str_in_iff container_absent img_absent css_absent
      timers_absent clear_absent get_images_id)

theorem absent_targets_noop_witness:
  "apply_patches ''<html><body></body></html>'' = ''<html><body></body></html>''"
  by (rule absent_targets_noop; rule not_in_if_longer; simp add: lens)

text \<open>
  Claim C7. A rule whose before-block or anchor is absent leaves the text as it is, the
  sixth step always does, and for every stored text \<open>t\<close> the run ends normally with the
  text passed through all six steps: the steps have no error result.
\<close>

theorem unmatched_rule_is_silent:
  "(\<not> str_in original_block t \<longrightarrow> patch_container t = t)
   \<and> (\<not> str_in img_block t \<longrightarrow> patch_img t = t)
   \<and> (\<not> str_in marker t \<longrightarrow> patch_carousel_css t = t)
   \<and> (\<not> str_in insert_point t \<longrightarrow> patch_timers t = t)
   \<and> (\<not> str_in cache_marker t \<longrightarrow> patch_clear_timers t = t)
   \<and> patch_get_images t = t
   \<and> (fs ''catalog.html'' = Some t \<longrightarrow>
        main fs = Inr (fs, patch_get_images (patch_clear_timers (patch_timers
          (patch_carousel_css (patch_img (patch_container t)))))))"
  by (simp add: str_in_iff container_absent img_absent css_absent timers_absent clear_absent
      get_images_id main_def apply_patches_def)

theorem unmatched_rule_is_silent_witness:
  "patch_container ''<p>hello</p>'' = ''<p>hello</p>''
   \<and> patch_img ''<p>hello</p>'' = ''<p>hello</p>''
   \<and> patch_carousel_css ''<p>hello</p>'' = ''<p>hello</p>''
   \<and> patch_timers ''<p>hello</p>'' = ''<p>hello</p>''
   \<and> patch_clear_timers ''<p>hello</p>'' = ''<p>hello</p>''
   \<and> main [''catalog.html'' \<mapsto> ''<p>hello</p>'']
       = Inr ([''catalog.html'' \<mapsto> ''<p>hello</p>''], ''<p>hello</p>'')"
proof -
  have 1: "\<not> str_in original_block ''<p>hello</p>''"
    by (rule not_in_if_longer) (simp add: lens)
  have 2: "\<not> str_in img_block ''<p>hello</p>''"
    by (rule not_in_if_longer) (simp add: lens)
  have 3: "\<not> str_in marker ''<p>hello</p>''"
    by (rule not_in_if_longer) (simp add: lens)
  have 4: "\<not> str_in insert_point ''<p>hello</p>''"
    by (rule not_in_if_longer) (simp add: lens)
  have 5: "\<not> str_in cache_marker ''<p>hello</p>''"
    by (rule not_in_if_longer) (simp add: lens)
  have 6: "[''catalog.html'' \<mapsto> ''<p>hello</p>''] ''catalog.html'' = Some ''<p>hello</p>''"
    by simp
  show ?thesis
    using unmatched_rule_is_silent[of "''<p>hello</p>''" "[''catalog.html'' \<mapsto> ''<p>hello</p>'']"]
      1 2 3 4 5 6
    by simp
qed

text \<open>
  Claim C10. The patched text is never shorter than the input.
\<close>

theorem patched_text_not_shorter: "length T \<le> length (apply_patches T)"
proof -
  have 1: "length t \<le> length (patch_container t)" for t
    by (simp add: patch_container_def length_replace lens)
  have 2: "length t \<le> length (patch_img t)" for t
    by (simp add: patch_img_def length_replace lens)
  have 3: "length t \<le> length (patch_carousel_css t)" for t
    by (simp add: patch_carousel_css_def length_replace)
  have 4: "length t \<le> length (patch_timers t)" for t
    by (simp add: patch_timers_def length_replace)
  have 5: "length t \<le> length (patch_clear_timers t)" for t
    by (simp add: patch_clear_timers_def length_replace)
  have "length T \<le> length (patch_container T)" by (rule 1)
  also have "\<dots> \<le> length (patch_img (patch_container T))" by (rule 2)
  also have "\<dots> \<le> length (patch_carousel_css (patch_img (patch_container T)))" by (rule 3)
  also have "\<dots> \<le> length (patch_timers (patch_carousel_css (patch_img (patch_container T))))"
    by (rule 4)
  also have "\<dots> \<le> length (patch_clear_timers (patch_timers (patch_carousel_css
      (patch_img (patch_container T)))))"
    by (rule 5)
  finally show ?thesis by (simp add: apply_patches_def get_images_id)
qed

lemma inserted_whole:
  assumes "old \<noteq> []" and "sublist old t" and "sublist g (old @ ins)"
  shows "sublist g (replace t old (old @ ins))"
proof -
  obtain xs ys where t: "t = xs @ old @ ys" and f: "\<not> sublist old (xs @ butlast old)"
    using first_occurrence[OF assms(1,2)] by blast
  have "replace t old (old @ ins) = xs @ (old @ ins) @ replace ys old (old @ ins)"
    unfolding t by (rule replace_first[OF assms(1) f])
  moreover have "sublist g ((old @ ins) @ replace ys old (old @ ins))"
    using assms(3) by (rule sublist_in_left)
  ultimately show ?thesis by (simp only: sublist_in_right)
qed

lemma sublist_trans': "sublist a b \<Longrightarrow> sublist b c \<Longrightarrow> sublist a c"
  by (rule sublist_order.order.trans)

text \<open>
  Claim C9. The sixth step returns its input, and the whole pipeline neither adds nor removes
  an occurrence of \<open>function getProductImages\<close>: the output contains it exactly when
  the input does.
\<close>

theorem get_images_never_added:
  "patch_get_images t = t
   \<and> str_in ''function getProductImages'' (apply_patches T)
       = str_in ''function getProductImages'' T"
proof -
  let ?g = "''function getProductImages''"
  have 1: "sublist ?g (patch_container t) = sublist ?g t" for t
    using container_creates_none[OF apart_get_images_updated, of t] container_keeps[OF apart_get_images_original, of t] by blast
  have 2: "sublist ?g (patch_img t) = sublist ?g t" for t
    using img_creates_none[OF apart_get_images_img_updated, of t] img_keeps[OF apart_get_images_img, of t] by blast
  have 3: "sublist ?g (patch_carousel_css t) = sublist ?g t" for t
    using css_creates_none[OF apart_get_images_css_insert, of t] css_keeps[OF uncut_get_images_marker, of t] by blast
  have 4: "sublist ?g (patch_timers t) = sublist ?g t" for t
    using timers_creates_none[OF apart_get_images_timers_insert, of t] timers_keeps[OF uncut_get_images_insert_point, of t] by blast
  have 5: "sublist ?g (patch_clear_timers t) = sublist ?g t" for t
    using clear_creates_none[OF apart_get_images_clear_insert, of t] clear_keeps[OF uncut_get_images_cache_marker, of t] by blast
  show ?thesis
    by (simp only: get_images_id apply_patches_def str_in_iff 1 2 3 4 5)
qed

text \<open>
  Claim C8 as stated covers every execution of an action. On the empty text the carousel
  guard reports the CSS absent, the replacement runs and finds no anchor, and the CSS is
  absent afterwards as well.
\<close>

theorem detector_after_action_counterexample:
  "\<not> str_in carousel_css []
   \<and> patch_carousel_css [] = replace [] marker (marker @ carousel_css)
   \<and> \<not> str_in carousel_css (patch_carousel_css [])"
proof -
  have "carousel_css \<noteq> []" using lens(6) by auto
  then show ?thesis using nonempty(3) by (simp add: patch_carousel_css_def)
qed

text \<open>
  Claim C8, as amended. For the first five rules, when the guard lets the action run and the
  rule's before-block or anchor is present, the rule cannot fire on the result: the
  before-block is gone (replacement rules) or the marker text is present (insertion rules).
\<close>

theorem detector_after_matching_action:
  "(str_in original_block t \<longrightarrow> \<not> str_in original_block (patch_container t))
   \<and> (str_in img_block t \<longrightarrow> \<not> str_in img_block (patch_img t))
   \<and> (\<not> str_in carousel_css t \<and> str_in marker t \<longrightarrow>
        str_in carousel_css (patch_carousel_css t))
   \<and> (\<not> str_in ''const carouselTimers'' t \<and> str_in insert_point t \<longrightarrow>
        str_in ''const carouselTimers'' (patch_timers t))
   \<and> (\<not> str_in ''function clearCarouselTimers'' t \<and> str_in cache_marker t \<longrightarrow>
        str_in ''function clearCarouselTimers'' (patch_clear_timers t))"
proof -
  have 1: "\<not> sublist original_block (patch_container t)"
    by (rule container_creates_none[OF apart_original_updated]) simp
  have 2: "\<not> sublist img_block (patch_img t)"
    by (rule img_creates_none[OF apart_img_img_updated]) simp
  have 3: "sublist marker t \<Longrightarrow> sublist carousel_css (replace t marker (marker @ carousel_css))"
    by (rule inserted_whole[OF nonempty(3)]) simp_all
  have 4: "sublist insert_point t \<Longrightarrow>
      sublist ''const carouselTimers'' (replace t insert_point (insert_point @ timers_decl))"
    by (rule inserted_whole[OF nonempty(4)]) (simp_all add: key_in_timers_decl sublist_in_right)
  have 5: "sublist cache_marker t \<Longrightarrow>
      sublist ''function clearCarouselTimers''
        (replace t cache_marker (cache_marker @ clear_timers_fn))"
    by (rule inserted_whole[OF nonempty(5)])
       (simp_all add: key_in_clear_timers_fn sublist_in_right)
  show ?thesis
    using 1 2 3 4 5
    by (simp add: str_in_iff patch_carousel_css_def patch_timers_def patch_clear_timers_def)
qed

theorem detector_after_matching_action_witness:
  "\<not> str_in original_block
      (patch_container (original_block @ img_block @ marker @ insert_point @ cache_marker))
   \<and> \<not> str_in img_block
      (patch_img (original_block @ img_block @ marker @ insert_point @ cache_marker))
   \<and> str_in carousel_css
      (patch_carousel_css (original_block @ img_block @ marker @ insert_point @ cache_marker))
   \<and> str_in ''const carouselTimers''
      (patch_timers (original_block @ img_block @ marker @ insert_point @ cache_marker))
   \<and> str_in ''function clearCarouselTimers''
      (patch_clear_timers (original_block @ img_block @ marker @ insert_point @ cache_marker))"
proof -
  let ?t = "original_block @ img_block @ marker @ insert_point @ cache_marker"
  have 1: "str_in original_block ?t" by (simp add: str_in_iff)
  have 2: "str_in img_block ?t" by (simp add: str_in_iff)
  have "sublist marker ((original_block @ img_block) @ marker @ (insert_point @ cache_marker))"
    by (rule sublist_appendI)
  then have 3: "str_in marker ?t" by (simp add: str_in_iff)
  have "sublist insert_point
      ((original_block @ img_block @ marker) @ insert_point @ cache_marker)"
    by (rule sublist_appendI)
  then have 4: "str_in insert_point ?t" by (simp add: str_in_iff)
  have "sublist cache_marker
      ((original_block @ img_block @ marker @ insert_point) @ cache_marker)"
    by (rule sublist_append_leftI)
  then have 5: "str_in cache_marker ?t" by (simp add: str_in_iff)
  have 6: "\<not> str_in carousel_css ?t"
    by (rule not_in_if_longer) (simp add: lens)
  have 7: "\<not> str_in ''const carouselTimers'' ?t"
    by (simp add: str_in_chk lits)
  have 8: "\<not> str_in ''function clearCarouselTimers'' ?t"
    by (simp add: str_in_chk lits)
  show ?thesis
    using detector_after_matching_action[of ?t] 1 2 3 4 5 6 7 8 by blast
qed

text \<open>C5, C6 shared\<close>

lemma patched_img_block_line: "apply_patches (img_block @ ''\<newline>'') = marker @ carousel_css"
proof -
  let ?t = "img_block @ ''\<newline>''"
  have "\<not> sublist original_block ?t" by (rule absent_if_longer) (simp add: lens)
  then have 1: "patch_container ?t = ?t" by (rule container_absent)
  have "replace ?t img_block img_updated
      = img_updated @ replace ''\<newline>'' img_block img_updated"
    by (rule replace_at_head[OF nonempty(2)])
  also have "replace ''\<newline>'' img_block img_updated = ''\<newline>''"
    by (rule replace_absent, rule absent_if_longer) (simp add: lens)
  finally have 2: "patch_img ?t = marker"
    by (simp add: patch_img_def str_in_iff marker_def)
  have "\<not> sublist carousel_css marker" by (rule absent_if_longer) (simp add: lens)
  then have 3: "patch_carousel_css marker = marker @ carousel_css"
    by (simp add: patch_carousel_css_def str_in_iff replace_whole[OF nonempty(3)])
  have "\<not> sublist insert_point (marker @ carousel_css)"
    using uncut_anchor_css_insert_point by (simp add: sub_chk_iff)
  then have 4: "patch_timers (marker @ carousel_css) = marker @ carousel_css"
    by (rule timers_absent)
  have "\<not> sublist cache_marker (marker @ carousel_css)"
    using uncut_anchor_css_cache_marker by (simp add: sub_chk_iff)
  then have 5: "patch_clear_timers (marker @ carousel_css) = marker @ carousel_css"
    by (rule clear_absent)
  show ?thesis by (simp only: apply_patches_def 1 2 3 4 5 get_images_id)
qed

text \<open>
  Claim C5 as stated fails for the img rule: in the text made of the img before-block and a
  newline the before-block occurs once and no other target occurs, yet the result also
  carries the carousel CSS after the replaced block.
\<close>

theorem replacement_locality_counterexample:
  "\<not> str_in img_block ([] @ butlast img_block)
   \<and> \<not> str_in img_block (tl img_block @ ''\<newline>'')
   \<and> \<not> str_in original_block ([] @ img_block @ ''\<newline>'')
   \<and> \<not> str_in marker ([] @ img_block @ ''\<newline>'')
   \<and> \<not> str_in insert_point ([] @ img_block @ ''\<newline>'')
   \<and> \<not> str_in cache_marker ([] @ img_block @ ''\<newline>'')
   \<and> apply_patches ([] @ img_block @ ''\<newline>'') = img_updated @ ''\<newline>'' @ carousel_css
   \<and> apply_patches ([] @ img_block @ ''\<newline>'') \<noteq> [] @ img_updated @ ''\<newline>''"
proof -
  have 1: "\<not> str_in img_block ([] @ butlast img_block)"
    by (rule not_in_if_longer) (simp add: lens)
  have 2: "\<not> str_in img_block (tl img_block @ ''\<newline>'')"
    by (simp add: str_in_chk lits)
  have 3: "\<not> str_in original_block ([] @ img_block @ ''\<newline>'')"
    by (rule not_in_if_longer) (simp add: lens)
  have 4: "\<not> str_in marker ([] @ img_block @ ''\<newline>'')"
    by (rule not_in_if_longer) (simp add: lens)
  have 5: "\<not> str_in insert_point ([] @ img_block @ ''\<newline>'')"
    by (rule not_in_if_longer) (simp add: lens)
  have 6: "\<not> str_in cache_marker ([] @ img_block @ ''\<newline>'')"
    by (rule not_in_if_longer) (simp add: lens)
  have 7: "apply_patches ([] @ img_block @ ''\<newline>'') = img_updated @ ''\<newline>'' @ carousel_css"
    using patched_img_block_line by (simp add: marker_def)
  have "length (img_updated @ ''\<newline>'' @ carousel_css) \<noteq> length ([] @ img_updated @ ''\<newline>'')"
    by (simp add: lens)
  then have 8: "img_updated @ ''\<newline>'' @ carousel_css \<noteq> [] @ img_updated @ ''\<newline>''"
    by metis
  show ?thesis using 1 2 3 4 5 6 7 8 by simp
qed

lemma only_occurrence:
  assumes "old \<noteq> []" and "\<not> sublist old (pre @ butlast old)" and "\<not> sublist old (tl old @ post)"
  shows "replace (pre @ old @ post) old new = pre @ new @ post"
proof -
  have "\<not> sublist old post" using assms(3) by (auto intro: sublist_in_right)
  then show ?thesis using replace_first[OF assms(1,2), of post new] by (simp add: replace_absent)
qed

lemma still_absent:
  assumes "apart_chk p new" and "\<not> sublist p (pre @ old @ post)"
  shows "\<not> sublist p (pre @ new @ post)"
proof
  assume "sublist p (pre @ new @ post)"
  then have "sublist p pre \<or> sublist p post" by (rule sublist_around[OF assms(1)])
  then have "sublist p (pre @ old @ post)"
    by (auto intro: sublist_in_left sublist_in_right)
  then show False using assms(2) by simp
qed

text \<open>
  Claim C5, as amended. Let a before-block occur exactly once in \<open>T = pre @ before @ post\<close>
  and no other rule's target occur in \<open>T\<close>. For the container rule the result is
  \<open>pre @ after @ post\<close>. For the img rule the result is \<open>pre @ after @ post\<close> whenever
  the carousel rule stays idle on it: the carousel CSS is already in \<open>T\<close>, or the replaced
  text does not contain the carousel anchor (the updated img block followed by a newline).
\<close>

theorem replacement_is_local:
  "(\<not> str_in original_block (pre @ butlast original_block)
      \<and> \<not> str_in original_block (tl original_block @ post)
      \<and> \<not> str_in img_block (pre @ original_block @ post)
      \<and> \<not> str_in marker (pre @ original_block @ post)
      \<and> \<not> str_in insert_point (pre @ original_block @ post)
      \<and> \<not> str_in cache_marker (pre @ original_block @ post)
     \<longrightarrow> apply_patches (pre @ original_block @ post) = pre @ updated_block @ post)
   \<and> (\<not> str_in img_block (pre @ butlast img_block)
      \<and> \<not> str_in img_block (tl img_block @ post)
      \<and> \<not> str_in original_block (pre @ img_block @ post)
      \<and> \<not> str_in marker (pre @ img_block @ post)
      \<and> \<not> str_in insert_point (pre @ img_block @ post)
      \<and> \<not> str_in cache_marker (pre @ img_block @ post)
      \<and> (str_in carousel_css (pre @ img_block @ post)
          \<or> \<not> str_in marker (pre @ img_updated @ post))
     \<longrightarrow> apply_patches (pre @ img_block @ post) = pre @ img_updated @ post)"
proof (intro conjI impI; elim conjE; unfold str_in_iff)
  let ?T = "pre @ original_block @ post" and ?U = "pre @ updated_block @ post"
  assume o: "\<not> sublist original_block (pre @ butlast original_block)"
    "\<not> sublist original_block (tl original_block @ post)"
    and n: "\<not> sublist img_block ?T" "\<not> sublist marker ?T"
      "\<not> sublist insert_point ?T" "\<not> sublist cache_marker ?T"
  have 1: "patch_container ?T = ?U"
    using only_occurrence[OF nonempty(1) o] by (simp add: patch_container_def str_in_iff)
  have 2: "patch_img ?U = ?U"
    by (rule img_absent[OF still_absent[OF apart_img_updated_block n(1)]])
  have 3: "patch_carousel_css ?U = ?U"
    by (rule css_absent[OF still_absent[OF apart_marker_updated n(2)]])
  have 4: "patch_timers ?U = ?U"
    by (rule timers_absent[OF still_absent[OF apart_insert_point_updated n(3)]])
  have 5: "patch_clear_timers ?U = ?U"
    by (rule clear_absent[OF still_absent[OF apart_cache_marker_updated n(4)]])
  show "apply_patches ?T = ?U"
    by (simp only: apply_patches_def 1 2 3 4 5 get_images_id)
next
  let ?T = "pre @ img_block @ post" and ?U = "pre @ img_updated @ post"
  assume o: "\<not> sublist img_block (pre @ butlast img_block)"
    "\<not> sublist img_block (tl img_block @ post)"
    and n: "\<not> sublist original_block ?T" "\<not> sublist marker ?T"
      "\<not> sublist insert_point ?T" "\<not> sublist cache_marker ?T"
    and c: "sublist carousel_css ?T \<or> \<not> sublist marker ?U"
  have 1: "patch_container ?T = ?T" by (rule container_absent[OF n(1)])
  have 2: "patch_img ?T = ?U"
    using only_occurrence[OF nonempty(2) o] by (simp add: patch_img_def str_in_iff)
  have 3: "patch_carousel_css ?U = ?U"
  proof (cases "sublist marker ?U")
    case False
    then show ?thesis by (rule css_absent)
  next
    case True
    then have "sublist carousel_css ?T" using c by simp
    then have "sublist carousel_css pre \<or> sublist carousel_css post"
      by (rule sublist_around[OF apart_css_img])
    then have "sublist carousel_css ?U"
      by (auto intro: sublist_in_left sublist_in_right)
    then show ?thesis by (simp add: patch_carousel_css_def str_in_iff)
  qed
  have 4: "patch_timers ?U = ?U"
    by (rule timers_absent[OF still_absent[OF apart_insert_point_img_updated n(3)]])
  have 5: "patch_clear_timers ?U = ?U"
    by (rule clear_absent[OF still_absent[OF apart_cache_marker_img_updated n(4)]])
  show "apply_patches ?T = ?U"
    by (simp only: apply_patches_def 1 2 3 4 5 get_images_id)
qed

theorem replacement_is_local_witness:
  "apply_patches (''<style>'' @ original_block @ ''</style>'')
     = ''<style>'' @ updated_block @ ''</style>''
   \<and> apply_patches (''<style>'' @ img_block @ ''</style>'')
     = ''<style>'' @ img_updated @ ''</style>''"
proof -
  have a: "\<not> str_in original_block (''<style>'' @ butlast original_block)"
    "\<not> str_in original_block (tl original_block @ ''</style>'')"
    "\<not> str_in img_block (''<style>'' @ original_block @ ''</style>'')"
    "\<not> str_in marker (''<style>'' @ original_block @ ''</style>'')"
    "\<not> str_in insert_point (''<style>'' @ original_block @ ''</style>'')"
    "\<not> str_in cache_marker (''<style>'' @ original_block @ ''</style>'')"
    by (simp_all add: str_in_chk butlast_chop lits del: butlast.simps)
  have b: "\<not> str_in img_block (''<style>'' @ butlast img_block)"
    "\<not> str_in img_block (tl img_block @ ''</style>'')"
    "\<not> str_in original_block (''<style>'' @ img_block @ ''</style>'')"
    "\<not> str_in marker (''<style>'' @ img_block @ ''</style>'')"
    "\<not> str_in insert_point (''<style>'' @ img_block @ ''</style>'')"
    "\<not> str_in cache_marker (''<style>'' @ img_block @ ''</style>'')"
    "\<not> str_in marker (''<style>'' @ img_updated @ ''</style>'')"
    by (simp_all add: str_in_chk butlast_chop lits del: butlast.simps)
  show ?thesis
    using replacement_is_local[of "''<style>''" "''</style>''"] a b by blast
qed

text \<open>
  Claim C6 as stated asks only that the img before-block is present. The carousel anchor is
  the updated block plus a newline: on the before-block alone the run updates the block and
  inserts no CSS.
\<close>

theorem img_block_alone_counterexample:
  "str_in img_block img_block
   \<and> \<not> str_in carousel_css img_block
   \<and> apply_patches img_block = img_updated
   \<and> \<not> str_in carousel_css (apply_patches img_block)"
proof -
  have 1: "patch_container img_block = img_block"
    by (rule container_absent, rule absent_if_longer) (simp add: lens)
  have 2: "patch_img img_block = img_updated"
    by (simp add: patch_img_def str_in_iff replace_whole[OF nonempty(2)])
  have 3: "patch_carousel_css img_updated = img_updated"
    by (rule css_absent, rule absent_if_longer) (simp add: lens)
  have 4: "patch_timers img_updated = img_updated"
    by (rule timers_absent, rule absent_if_longer) (simp add: lens)
  have 5: "patch_clear_timers img_updated = img_updated"
    by (rule clear_absent, rule absent_if_longer) (simp add: lens)
  have 6: "apply_patches img_block = img_updated"
    by (simp only: apply_patches_def 1 2 3 4 5 get_images_id)
  have 7: "\<not> str_in carousel_css img_block" "\<not> str_in carousel_css img_updated"
    by (rule not_in_if_longer, simp add: lens)+
  show ?thesis using 6 7 by (simp add: str_in_iff)
qed

lemma img_block_not_at_newline: "\<not> prefix img_block (CHR ''\<newline>'' # v)"
  by (simp add: img_block_def)

text \<open>
  Claim C6, as amended. If \<open>T\<close> contains the img before-block immediately followed by a
  newline and does not contain the carousel CSS, then one run yields a text that contains the
  updated img block and the carousel CSS, the CSS right after the block and its newline.
\<close>

theorem ordering_dependency_one_pass:
  assumes "str_in (img_block @ ''\<newline>'') T" and "\<not> str_in carousel_css T"
  shows "str_in img_updated (apply_patches T)
    \<and> str_in carousel_css (apply_patches T)
    \<and> str_in (img_updated @ ''\<newline>'' @ carousel_css) (apply_patches T)"
proof -
  define t1 where "t1 = patch_container T"
  define t2 where "t2 = patch_img t1"
  define t3 where "t3 = patch_carousel_css t2"
  define t4 where "t4 = patch_timers t3"
  define t5 where "t5 = patch_clear_timers t4"
  have F: "apply_patches T = t5"
    by (simp add: apply_patches_def get_images_id t1_def t2_def t3_def t4_def t5_def)
  have i1: "sublist (img_block @ ''\<newline>'') t1"
    unfolding t1_def using assms(1) container_keeps[OF apart_img_line_original] by (simp add: str_in_iff)
  have c1: "\<not> sublist carousel_css t1"
    unfolding t1_def using assms(2) container_creates_none[OF apart_css_updated] by (simp add: str_in_iff)
  obtain u v where t1: "t1 = u @ img_block @ CHR ''\<newline>'' # v"
    using i1 by (auto simp: sublist_def)
  have "sublist img_block t1" unfolding t1 by simp
  then have "t2 = replace t1 img_block img_updated"
    by (simp add: t2_def patch_img_def str_in_iff)
  also have "\<dots> = replace u img_block img_updated @ img_updated
      @ replace (CHR ''\<newline>'' # v) img_block img_updated"
    unfolding t1 by (rule replace_around[OF nonempty(2) img_block_unbordered])
  also have "replace (CHR ''\<newline>'' # v) img_block img_updated
      = CHR ''\<newline>'' # replace v img_block img_updated"
    using nonempty(2) img_block_not_at_newline by simp
  finally have t2: "t2 = replace u img_block img_updated @ marker
      @ replace v img_block img_updated"
    by (simp add: marker_def)
  have m2: "sublist marker t2" unfolding t2 by simp
  have c2: "\<not> sublist carousel_css t2"
    unfolding t2_def using c1 img_creates_none[OF apart_css_img_updated] by simp
  have "t3 = replace t2 marker (marker @ carousel_css)"
    using c2 by (simp add: t3_def patch_carousel_css_def str_in_iff)
  then have "sublist (marker @ carousel_css) t3"
    using inserted_whole[OF nonempty(3) m2, of "marker @ carousel_css" carousel_css] by simp
  then have "sublist (marker @ carousel_css) t4"
    unfolding t4_def by (rule timers_keeps[OF uncut_anchor_css_insert_point])
  then have r: "sublist (marker @ carousel_css) t5"
    unfolding t5_def by (rule clear_keeps[OF uncut_anchor_css_cache_marker])
  have "sublist img_updated (marker @ carousel_css)" by (simp add: marker_def)
  then have r1: "sublist img_updated t5" using r by (rule sublist_trans')
  have "sublist carousel_css (marker @ carousel_css)" by simp
  then have r2: "sublist carousel_css t5" using r by (rule sublist_trans')
  show ?thesis using r r1 r2 by (simp add: F str_in_iff marker_def)
qed

theorem ordering_dependency_one_pass_witness:
  "str_in img_updated (apply_patches (img_block @ ''\<newline>''))
   \<and> str_in carousel_css (apply_patches (img_block @ ''\<newline>''))
   \<and> str_in (img_updated @ ''\<newline>'' @ carousel_css) (apply_patches (img_block @ ''\<newline>''))"
proof -
  have 1: "str_in (img_block @ ''\<newline>'') (img_block @ ''\<newline>'')"
    by (simp add: str_in_iff)
  have 2: "\<not> str_in carousel_css (img_block @ ''\<newline>'')"
    by (rule not_in_if_longer) (simp add: lens)
  show ?thesis by (rule ordering_dependency_one_pass[OF 1 2])
qed


end
